theory Spec2Isabelle
  imports Main "HOL-Library.Sublist"
begin

section \<open>The display surface\<close>

text \<open>
  The program of \<^verbatim>\<open>longrunning.py\<close>, lines 230 to 264, drives Streamlit through five
  calls: \<^verbatim>\<open>st.status(cmd, expanded=True)\<close>, \<^verbatim>\<open>st.container(height=300)\<close>,
  \<^verbatim>\<open>st.code(text)\<close>, \<^verbatim>\<open>x.empty()\<close> and \<^verbatim>\<open>stx.update(label=..., state=..., expanded=...)\<close>.
  The effect of a run is the sequence of these calls, each with its arguments. A status
  widget is created in the state \<^verbatim>\<open>running\<close>; the two states the source passes to
  \<^verbatim>\<open>update\<close> are \<^verbatim>\<open>complete\<close> and \<^verbatim>\<open>error\<close>.
\<close>

datatype ui_state = Running | Complete | Error

datatype call =
    Status string bool
  | Container nat
  | Code string
  | Empty
  | Update string ui_state bool

section \<open>The child process\<close>

text \<open>
  \<^verbatim>\<open>pexpect.spawn(cmd, encoding='utf8')\<close> either raises (the command is not found or
  cannot be executed) or returns a child. Iterating the child yields its output line by
  line until end of file; \<^verbatim>\<open>child.close()\<close> either raises (the process cannot be
  terminated or reaped) or sets \<^verbatim>\<open>child.exitstatus\<close>, which is an integer, or
  \<^verbatim>\<open>None\<close> when the process was ended by a signal. The operating system is a
  parameter of the model: a function from the command line to what spawning it gives.
\<close>

record child =
  lines :: "string list"
  exitstatus :: "int option"
  close_raises :: bool

type_synonym spawn = "string \<Rightarrow> child option"

datatype error = SpawnError | WaitError | ValueError

section \<open>The coroutine \<^verbatim>\<open>launchandview\<close>\<close>

text \<open>
  \<^verbatim>\<open>
  async def launchandview(cmd, endst):
      import pexpect
      child = pexpect.spawn(cmd, encoding='utf8')
      with st.status(cmd, expanded=True) as stx:
          c = st.container(height=300)
          await asyncio.sleep(0)                       # line 236
          with c:
              content = ''
              x = st.code('')
              for line in child:
                  x.empty()
                  content += line
                  x = st.code(content)
                  await asyncio.sleep(0)               # line 244
          child.close()
          if child.exitstatus == 0: stx.update(label=f"{endst}: Complete'", state="complete", expanded=False)
          else: stx.update(label=f"{endst}: Ended with errors'", state="error", expanded=False)
          await asyncio.sleep(0)                       # line 248
  \<close>
  Calling the function runs nothing: it creates a coroutine object. The body runs when the
  event loop resumes the coroutine, up to the next \<^verbatim>\<open>await asyncio.sleep(0)\<close>, where
  it is suspended. A coroutine is therefore one of four things: created and not yet
  started, or suspended at line 236, 244 or 248, with the local variables that are still
  read afterwards.
\<close>

datatype coroutine =
    Created string string
  | At236 child string
  | At244 child string string
  | At248

datatype outcome = Suspended coroutine | Returned | Raised error

definition launchandview :: "string \<Rightarrow> string \<Rightarrow> coroutine" where
  "launchandview cmd endst = Created cmd endst"

text \<open>Lines 245 to 248: close the child, then the status badge from the exit status.\<close>

definition finalize :: "child \<Rightarrow> string \<Rightarrow> call list \<times> outcome" where
  "finalize ch endst =
     (if close_raises ch then ([], Raised WaitError)
      else if exitstatus ch = Some 0
        then ([Update (endst @ '': Complete'' @ [CHR 0x27]) Complete False], Suspended At248)
        else ([Update (endst @ '': Ended with errors'' @ [CHR 0x27]) Error False], Suspended At248))"

text \<open>
  The head of the loop at line 240: with a line left, lines 241 to 244; at end of file,
  the code after the loop.
\<close>

definition iterate :: "child \<Rightarrow> string \<Rightarrow> string \<Rightarrow> call list \<times> outcome" where
  "iterate ch endst content =
     (case lines ch of
        [] \<Rightarrow> finalize ch endst
      | line # rest \<Rightarrow>
          ([Empty, Code (content @ line)],
           Suspended (At244 (ch\<lparr>lines := rest\<rparr>) endst (content @ line))))"

text \<open>One resumption of the coroutine: the calls it makes and how it stops.\<close>

fun resume :: "spawn \<Rightarrow> coroutine \<Rightarrow> call list \<times> outcome" where
  "resume os (Created cmd endst) =
     (case os cmd of
        None \<Rightarrow> ([], Raised SpawnError)
      | Some ch \<Rightarrow> ([Status cmd True, Container 300], Suspended (At236 ch endst)))"
| "resume os (At236 ch endst) =
     (case iterate ch endst [] of (cs, r) \<Rightarrow> (Code [] # cs, r))"
| "resume os (At244 ch endst content) = iterate ch endst content"
| "resume os At248 = ([], Returned)"

text \<open>The number of resumptions a coroutine still takes.\<close>

fun steps :: "spawn \<Rightarrow> coroutine \<Rightarrow> nat" where
  "steps os (Created cmd endst) =
     (case os cmd of None \<Rightarrow> 1 | Some ch \<Rightarrow> length (lines ch) + 4)"
| "steps os (At236 ch endst) = length (lines ch) + 3"
| "steps os (At244 ch endst content) = length (lines ch) + 2"
| "steps os At248 = 1"

lemma steps_pos: "0 < steps os c"
  by (cases c) (auto split: option.splits)

lemma finalize_steps: "finalize ch endst = (cs, Suspended c') \<Longrightarrow> steps os c' = 1"
  by (auto simp: finalize_def split: if_splits)

lemma iterate_steps:
  "iterate ch endst content = (cs, Suspended c') \<Longrightarrow> steps os c' < length (lines ch) + 2"
  by (auto simp: iterate_def split: list.splits dest: finalize_steps [where os = os])

lemma resume_steps: "resume os c = (cs, Suspended c') \<Longrightarrow> steps os c' < steps os c"
proof (cases c)
  case (Created cmd endst)
  assume "resume os c = (cs, Suspended c')"
  with Created show ?thesis by (auto split: option.splits)
next
  case (At236 ch endst)
  assume "resume os c = (cs, Suspended c')"
  with At236 obtain ds where "iterate ch endst [] = (ds, Suspended c')"
    by (auto split: prod.splits)
  from iterate_steps [OF this, of os] At236 show ?thesis by simp
next
  case (At244 ch endst content)
  assume "resume os c = (cs, Suspended c')"
  with At244 have "iterate ch endst content = (cs, Suspended c')" by simp
  from iterate_steps [OF this, of os] At244 show ?thesis by simp
next
  case At248
  assume "resume os c = (cs, Suspended c')"
  with At248 show ?thesis by simp
qed

section \<open>One task alone\<close>

text \<open>
  The calls of a coroutine that is resumed again and again until it returns or raises:
  what the task does when no other task is there. The first component of \<open>resume\<close> is
  what this resumption calls, the second how it stops.
\<close>

function solo :: "spawn \<Rightarrow> coroutine \<Rightarrow> call list" where
  "solo os c =
     fst (resume os c) @
     (case snd (resume os c) of
        Suspended c' \<Rightarrow> solo os c'
      | Returned \<Rightarrow> []
      | Raised e \<Rightarrow> [])"
  by pat_completeness auto
termination
  by (relation "measure (\<lambda>(os, c). steps os c)") (auto intro: resume_steps simp: prod_eq_iff)

section \<open>The event loop\<close>

text \<open>
  \<^verbatim>\<open>
  loop = asyncio.new_event_loop()
  tasks = []
  ...
  loop.run_until_complete(asyncio.wait(tasks))
  loop.close()
  \<close>
  \<^verbatim>\<open>asyncio.wait\<close> raises \<^verbatim>\<open>ValueError\<close> when the collection is empty. Otherwise it
  wraps every coroutine in a task, which puts it at the back of the loop's queue of ready
  callbacks, and waits until all tasks are done (\<^verbatim>\<open>return_when=ALL_COMPLETED\<close>). The
  loop takes the task at the front of the queue and resumes its coroutine. At
  \<^verbatim>\<open>await asyncio.sleep(0)\<close> the task goes to the back of the queue; a task whose
  coroutine returns or raises is done, keeps the exception to itself and leaves the queue.
  Tasks are named by their position in the list \<^verbatim>\<open>tasks\<close>; every call on the display
  surface is recorded with the task that made it. The processes run by themselves and
  their output is fixed when they are spawned; the read at line 240 waits for the next
  line, and how long it waits is not part of the model.
\<close>

definition requeue :: "(nat \<times> coroutine) list \<Rightarrow> nat \<Rightarrow> outcome \<Rightarrow> (nat \<times> coroutine) list" where
  "requeue q i r = (case r of Suspended c' \<Rightarrow> q @ [(i, c')] | Returned \<Rightarrow> q | Raised e \<Rightarrow> q)"

lemma requeue_steps:
  "sum_list (map (\<lambda>(i, c). steps os c) (requeue q i (snd (resume os c)))) <
   steps os c + sum_list (map (\<lambda>(i, c). steps os c) q)"
proof (cases "snd (resume os c)")
  case (Suspended c')
  then have "resume os c = (fst (resume os c), Suspended c')" by (simp add: prod_eq_iff)
  from resume_steps [OF this] Suspended show ?thesis by (simp add: requeue_def)
next
  case Returned
  then show ?thesis using steps_pos [of os c] by (simp add: requeue_def)
next
  case (Raised e)
  then show ?thesis using steps_pos [of os c] by (simp add: requeue_def)
qed

function sched :: "spawn \<Rightarrow> (nat \<times> coroutine) list \<Rightarrow> (nat \<times> call) list" where
  "sched os [] = []"
| "sched os ((i, c) # q) =
     map (Pair i) (fst (resume os c)) @ sched os (requeue q i (snd (resume os c)))"
  by pat_completeness auto
termination
  by (relation "measure (\<lambda>(os, q). sum_list (map (\<lambda>(i, c). steps os c) q))")
    (simp_all add: requeue_steps)

text \<open>
  This is \<^verbatim>\<open>asyncio\<close> as the page uses it, where \<^verbatim>\<open>asyncio.wait\<close> accepts coroutine
  objects (Python up to 3.10; later versions refuse them with \<^verbatim>\<open>TypeError\<close>). There
  \<^verbatim>\<open>asyncio.wait\<close> collects its argument into a set before it makes the tasks, so
  the order in which the tasks enter the queue is an iteration order of that set and not
  the order of the list: \<open>ord\<close> lists the positions of \<^verbatim>\<open>tasks\<close> in the order in which
  they are started. A position that is not one of \<^verbatim>\<open>tasks\<close> starts nothing.
\<close>

definition run :: "spawn \<Rightarrow> nat list \<Rightarrow> coroutine list \<Rightarrow> error + (nat \<times> call) list" where
  "run os ord tasks =
     (if tasks = [] then Inl ValueError
      else Inr (sched os (map (\<lambda>i. (i, tasks ! i)) (filter (\<lambda>i. i < length tasks) ord))))"

text \<open>
  The form and the block under \<^verbatim>\<open>if prg:\<close>, lines 250 to 264. The tasks are
  appended in the order Joe, Jack, William, Averell.
\<close>

record form =
  Joe :: bool
  William :: bool
  Jack :: bool
  Averell :: bool
  prg :: bool

definition tasks_of :: "form \<Rightarrow> coroutine list" where
  "tasks_of f =
     (if Joe f then [launchandview ''python3 /tmp/extprg.py Joe 10 2'' ''python3 /tmp/extprg.py Joe''] else []) @
     (if Jack f then [launchandview ''python3 /tmp/extprg.py Jack 10 2'' ''python3 /tmp/extprg.py Jack''] else []) @
     (if William f then [launchandview ''python3 /tmp/extprg.py William 10 2'' ''python3 /tmp/extprg.py William''] else []) @
     (if Averell f then [launchandview ''python3 /tmp/extprg.py Averell 10 2'' ''python3 /tmp/extprg.py Averell''] else [])"

definition example2 :: "spawn \<Rightarrow> nat list \<Rightarrow> form \<Rightarrow> error + (nat \<times> call) list" where
  "example2 os ord f = (if prg f then run os ord (tasks_of f) else Inr [])"

section \<open>What a pane shows\<close>

text \<open>
  The pane of task \<open>i\<close> is the status widget that task created: its calls are the calls
  of the trace made by task \<open>i\<close>. The states of the widget are read off these calls:
  \<^verbatim>\<open>st.status\<close> creates it running, \<^verbatim>\<open>update\<close> sets the state given. The texts
  shown in the code element are the arguments of \<^verbatim>\<open>st.code\<close>, in order; the last one
  is the value of the variable \<^verbatim>\<open>content\<close>, the buffer of the pane.
\<close>

definition pane :: "nat \<Rightarrow> (nat \<times> call) list \<Rightarrow> call list" where
  "pane i tr = map snd (filter (\<lambda>e. fst e = i) tr)"

fun transition :: "call \<Rightarrow> ui_state option" where
  "transition (Status label expanded) = Some Running"
| "transition (Update label s expanded) = Some s"
| "transition (Container h) = None"
| "transition (Code text) = None"
| "transition Empty = None"

definition status_history :: "call list \<Rightarrow> ui_state list" where
  "status_history cs = List.map_filter transition cs"

definition pane_state :: "call list \<Rightarrow> ui_state option" where
  "pane_state cs = (case status_history cs of [] \<Rightarrow> None | s # h \<Rightarrow> Some (last (s # h)))"


fun rendered :: "call \<Rightarrow> string option" where
  "rendered (Code text) = Some text"
| "rendered (Status label expanded) = None"
| "rendered (Update label s expanded) = None"
| "rendered (Container h) = None"
| "rendered Empty = None"

definition renders :: "call list \<Rightarrow> string list" where
  "renders cs = List.map_filter rendered cs"


text \<open>
  The specification's pane, for comparison with the source's. Its buffer keeps the last
  \<open>K\<close> lines appended and evicts the oldest first; its \<open>append\<close> hands the display the
  appended line and nothing else.
\<close>

definition spec_retained :: "nat \<Rightarrow> string list \<Rightarrow> string list" where
  "spec_retained K ls = drop (length ls - K) ls"

definition spec_incremental :: "string list \<Rightarrow> string list" where
  "spec_incremental ls = [] # ls"

text \<open>The calls of the loop at lines 240 to 244 over the lines \<open>ls\<close>, all iterations together.\<close>

fun pump :: "string \<Rightarrow> string list \<Rightarrow> call list" where
  "pump content [] = []"
| "pump content (line # rest) = [Empty, Code (content @ line)] @ pump (content @ line) rest"

section \<open>A task alone, in closed form\<close>

declare solo.simps [simp del]

lemma finalize_lines: "finalize (ch\<lparr>lines := ls\<rparr>) endst = finalize ch endst"
  by (simp add: finalize_def)

lemma solo_finalize:
  "fst (finalize ch endst) @
   (case snd (finalize ch endst) of Suspended c' \<Rightarrow> solo os c' | Returned \<Rightarrow> [] | Raised e \<Rightarrow> [])
   = fst (finalize ch endst)"
  by (simp add: finalize_def solo.simps [of os At248])

lemma solo_At244:
  "solo os (At244 ch endst content) = pump content (lines ch) @ fst (finalize ch endst)"
proof (induction "lines ch" arbitrary: ch content)
  case Nil
  then have l: "lines ch = []" by simp
  show ?case
    by (subst solo.simps) (simp add: iterate_def l solo_finalize)
next
  case (Cons line rest)
  from Cons(2) have l: "lines ch = line # rest" by simp
  have "rest = lines (ch\<lparr>lines := rest\<rparr>)" by simp
  from Cons(1) [OF this] have
    ih: "solo os (At244 (ch\<lparr>lines := rest\<rparr>) endst (content @ line)) =
         pump (content @ line) rest @ fst (finalize ch endst)"
    by (simp add: finalize_lines)
  show ?case
    by (subst solo.simps) (simp add: iterate_def l ih)
qed

lemma solo_At236:
  "solo os (At236 ch endst) = Code [] # pump [] (lines ch) @ fst (finalize ch endst)"
proof (cases "lines ch")
  case Nil
  have "fst (finalize ch endst) @
   (case snd (finalize ch endst) of Suspended c' \<Rightarrow> solo os c' | Returned \<Rightarrow> [] | Raised e \<Rightarrow> [])
   = fst (finalize ch endst)" by (rule solo_finalize)
  then show ?thesis
    by (subst solo.simps) (simp add: iterate_def Nil case_prod_unfold)
next
  case (Cons line rest)
  show ?thesis
    by (subst solo.simps) (simp add: iterate_def Cons solo_At244 finalize_lines case_prod_unfold)
qed

lemma solo_Created:
  "solo os (Created cmd endst) =
     (case os cmd of
        None \<Rightarrow> []
      | Some ch \<Rightarrow> [Status cmd True, Container 300, Code []] @ pump [] (lines ch) @ fst (finalize ch endst))"
  by (subst solo.simps) (simp add: solo_At236 split: option.splits)

lemma pane_append: "pane i (xs @ ys) = pane i xs @ pane i ys"
  by (simp add: pane_def)

lemma pane_map_Pair: "pane i (map (Pair j) cs) = (if i = j then cs else [])"
  by (induction cs) (auto simp: pane_def)

lemma map_of_requeue:
  "map_of q j = None \<Longrightarrow>
   map_of (requeue q j r) i =
     (if i = j then (case r of Suspended c' \<Rightarrow> Some c' | Returned \<Rightarrow> None | Raised e \<Rightarrow> None)
      else map_of q i)"
  by (cases r) (auto simp: requeue_def map_add_def split: option.splits)

lemma distinct_requeue:
  "distinct (map fst q) \<Longrightarrow> j \<notin> fst ` set q \<Longrightarrow> distinct (map fst (requeue q j r))"
  by (cases r) (auto simp: requeue_def)

lemma pane_sched:
  "distinct (map fst q) \<Longrightarrow>
   pane i (sched os q) = (case map_of q i of None \<Rightarrow> [] | Some c \<Rightarrow> solo os c)"
proof (induction os q rule: sched.induct)
  case (1 os)
  show ?case by (simp add: pane_def)
next
  case (2 os j c q)
  let ?r = "snd (resume os c)"
  from "2.prems" have dq: "distinct (map fst q)" and jq: "j \<notin> fst ` set q" by auto
  from jq have mj: "map_of q j = None" by (simp add: map_of_eq_None_iff)
  from "2.IH" [OF distinct_requeue [OF dq jq]]
  have ih: "pane i (sched os (requeue q j ?r)) =
    (case map_of (requeue q j ?r) i of None \<Rightarrow> [] | Some c \<Rightarrow> solo os c)" .
  have step: "pane i (sched os ((j, c) # q)) =
    (if i = j then fst (resume os c) else []) @ pane i (sched os (requeue q j ?r))"
    by (simp add: pane_append pane_map_Pair)
  show ?case
  proof (cases "i = j")
    case True
    have "solo os c = fst (resume os c) @
      (case ?r of Suspended c' \<Rightarrow> solo os c' | Returned \<Rightarrow> [] | Raised e \<Rightarrow> [])"
      by (subst solo.simps) simp
    moreover have "pane i (sched os (requeue q j ?r)) =
      (case ?r of Suspended c' \<Rightarrow> solo os c' | Returned \<Rightarrow> [] | Raised e \<Rightarrow> [])"
      unfolding ih map_of_requeue [OF mj] using True by (simp split: outcome.splits)
    ultimately show ?thesis unfolding step using True by simp
  next
    case False
    then show ?thesis unfolding step ih map_of_requeue [OF mj] by simp
  qed
qed

section \<open>A pane of the run is its task alone\<close>

lemma map_of_indexed: "map_of (map (\<lambda>i. (i, f i)) ord) i = (if i \<in> set ord then Some (f i) else None)"
  by (induction ord) auto

lemma run_pane:
  assumes "run os ord tasks = Inr tr" and "distinct ord" and "i \<in> set ord"
    and "i < length tasks"
  shows "pane i tr = solo os (tasks ! i)"
proof -
  let ?ord = "filter (\<lambda>i. i < length tasks) ord"
  let ?q = "map (\<lambda>i. (i, tasks ! i)) ?ord"
  from assms(1) have tr: "tr = sched os ?q"
    by (simp add: run_def split: if_splits)
  have "map fst ?q = ?ord" by (simp add: comp_def)
  with assms(2) have "distinct (map fst ?q)" by simp
  from pane_sched [OF this, of i os] assms(3,4) show ?thesis
    by (simp add: tr map_of_indexed)
qed

lemma solo_launchandview:
  "os cmd = Some ch \<Longrightarrow>
   solo os (launchandview cmd endst) =
     [Status cmd True, Container 300, Code []] @ pump [] (lines ch) @ fst (finalize ch endst)"
  by (simp add: launchandview_def solo_Created)

lemma status_history_Nil: "status_history [] = []"
  by (simp add: status_history_def List.map_filter_def)

lemma status_history_Cons:
  "status_history (c # cs) =
     (case transition c of None \<Rightarrow> status_history cs | Some s \<Rightarrow> s # status_history cs)"
  by (simp add: status_history_def List.map_filter_def split: option.splits)

lemma renders_Nil: "renders [] = []"
  by (simp add: renders_def List.map_filter_def)

lemma renders_Cons:
  "renders (c # cs) = (case rendered c of None \<Rightarrow> renders cs | Some s \<Rightarrow> s # renders cs)"
  by (simp add: renders_def List.map_filter_def split: option.splits)

lemma status_history_append: "status_history (xs @ ys) = status_history xs @ status_history ys"
  by (simp add: status_history_def List.map_filter_def)

lemma renders_append: "renders (xs @ ys) = renders xs @ renders ys"
  by (simp add: renders_def List.map_filter_def)

lemma status_history_pump: "status_history (pump content ls) = []"
  by (induction ls arbitrary: content) (simp_all add: status_history_Nil status_history_Cons)

lemma renders_pump:
  "renders (pump content ls) = map (\<lambda>p. content @ concat p) (tl (prefixes ls))"
proof (induction ls arbitrary: content)
  case Nil
  show ?case by (simp add: renders_Nil)
next
  case (Cons l ls)
  have p: "prefixes ls = [] # tl (prefixes ls)" by (cases ls) simp_all
  have "renders (pump content (l # ls)) = (content @ l) # renders (pump (content @ l) ls)"
    by (simp add: renders_Cons)
  also have "\<dots> = (content @ l) # map (\<lambda>p. (content @ l) @ concat p) (tl (prefixes ls))"
    by (simp only: Cons.IH)
  also have "\<dots> = map (\<lambda>p. content @ concat p) (map ((#) l) (prefixes ls))"
    by (subst (2) p) (simp add: comp_def)
  finally show ?case by simp
qed

lemma renders_finalize: "renders (fst (finalize ch endst)) = []"
  by (simp add: finalize_def renders_def List.map_filter_def)

lemma status_history_finalize:
  "\<not> close_raises ch \<Longrightarrow>
   status_history (fst (finalize ch endst)) = [if exitstatus ch = Some 0 then Complete else Error]"
  by (simp add: finalize_def status_history_def List.map_filter_def)

lemma renders_solo:
  "os cmd = Some ch \<Longrightarrow> renders (solo os (launchandview cmd endst)) = map concat (prefixes (lines ch))"
proof -
  assume os: "os cmd = Some ch"
  have p: "prefixes (lines ch) = [] # tl (prefixes (lines ch))" by (cases "lines ch") simp_all
  have "renders (solo os (launchandview cmd endst)) = [] # map concat (tl (prefixes (lines ch)))"
    by (simp add: solo_launchandview [of os cmd ch endst, OF os] renders_Cons renders_append
        renders_pump renders_finalize)
  also have "\<dots> = map concat (prefixes (lines ch))"
    by (subst (2) p) simp
  finally show ?thesis .
qed

lemma status_history_solo:
  "os cmd = Some ch \<Longrightarrow> \<not> close_raises ch \<Longrightarrow>
   status_history (solo os (launchandview cmd endst)) =
     [Running, if exitstatus ch = Some 0 then Complete else Error]"
proof -
  assume os: "os cmd = Some ch" and cl: "\<not> close_raises ch"
  show ?thesis
    by (simp add: solo_launchandview [of os cmd ch endst, OF os] status_history_Cons
        status_history_append status_history_pump status_history_finalize [OF cl])
qed



lemma pane_run_solo:
  assumes "run os ord tasks = Inr tr" and "distinct ord" and "set ord = {..<length tasks}"
    and "i < length tasks" and "tasks ! i = launchandview cmd endst"
  shows "pane i tr = solo os (launchandview cmd endst)"
proof -
  from assms(3,4) have "i \<in> set ord" by simp
  from run_pane [OF assms(1,2) this assms(4)] assms(5) show ?thesis by simp
qed

lemma pane_state_history:
  "status_history cs = [Running, s] \<Longrightarrow> pane_state cs = Some s"
  by (simp add: pane_state_def)



lemma pump_prefixes:
  "pump content ls = concat (map (\<lambda>p. [Empty, Code (content @ concat p)]) (tl (prefixes ls)))"
proof (induction ls arbitrary: content)
  case Nil
  show ?case by simp
next
  case (Cons l ls)
  have p: "prefixes ls = [] # tl (prefixes ls)" by (cases ls) simp_all
  have "pump content (l # ls) = [Empty, Code (content @ l)] @ pump (content @ l) ls" by simp
  also have "\<dots> = [Empty, Code (content @ l)] @
      concat (map (\<lambda>p. [Empty, Code ((content @ l) @ concat p)]) (tl (prefixes ls)))"
    by (simp only: Cons.IH)
  also have "\<dots> = concat (map (\<lambda>p. [Empty, Code (content @ concat p)]) (map ((#) l) (prefixes ls)))"
    by (subst (2) p) (simp add: comp_def)
  finally show ?case by simp
qed

section \<open>The status badge\<close>

text \<open>
  Claim C1. In a run that returns, take a command that was spawned and whose child was
  closed, with exit code \<open>n\<close>. The state its pane ends in is decided by the exit code:
  \<open>Complete\<close> when \<open>n = 0\<close>, \<open>Error\<close> for every other code.
\<close>

theorem exit_code_decides_status:
  assumes "run os ord tasks = Inr tr" and "distinct ord" and "set ord = {..<length tasks}"
    and "i < length tasks" and "tasks ! i = launchandview cmd endst"
    and "os cmd = Some ch" and "\<not> close_raises ch" and "exitstatus ch = Some n"
  shows "pane_state (pane i tr) = Some (if n = 0 then Complete else Error)"
proof -
  have "status_history (pane i tr) = [Running, if exitstatus ch = Some 0 then Complete else Error]"
    using pane_run_solo [OF assms(1-5)] status_history_solo [of os cmd ch endst, OF assms(6,7)]
    by simp
  from pane_state_history [OF this] assms(8) show ?thesis by simp
qed

theorem exit_code_decides_status_witness:
  "run (map_of [(''f'', \<lparr>lines = [''x''], exitstatus = Some 0, close_raises = False\<rparr>),
                (''g'', \<lparr>lines = [], exitstatus = Some 3, close_raises = False\<rparr>)])
       [1, 0] [launchandview ''f'' ''F'', launchandview ''g'' ''G''] =
   Inr [(1, Status ''g'' True), (1, Container 300), (0, Status ''f'' True), (0, Container 300),
        (1, Code []), (1, Update (''G: Ended with errors'' @ [CHR 0x27]) Error False),
        (0, Code []), (0, Empty), (0, Code ''x''),
        (0, Update (''F: Complete'' @ [CHR 0x27]) Complete False)]
   \<and> pane_state (pane 1
       [(1, Status ''g'' True), (1, Container 300), (0, Status ''f'' True), (0, Container 300),
        (1, Code []), (1, Update (''G: Ended with errors'' @ [CHR 0x27]) Error False),
        (0, Code []), (0, Empty), (0, Code ''x''),
        (0, Update (''F: Complete'' @ [CHR 0x27]) Complete False)]) = Some Error"
proof -
  let ?os = "map_of [(''f'', \<lparr>lines = [''x''], exitstatus = Some 0, close_raises = False\<rparr>),
                     (''g'', \<lparr>lines = [], exitstatus = Some (3::int), close_raises = False\<rparr>)]"
  let ?tasks = "[launchandview ''f'' ''F'', launchandview ''g'' ''G'']"
  let ?tr = "[(1::nat, Status ''g'' True), (1, Container 300), (0, Status ''f'' True), (0, Container 300),
        (1, Code []), (1, Update (''G: Ended with errors'' @ [CHR 0x27]) Error False),
        (0, Code []), (0, Empty), (0, Code ''x''),
        (0, Update (''F: Complete'' @ [CHR 0x27]) Complete False)]"
  have r: "run ?os [1, 0] ?tasks = Inr ?tr"
    by (simp add: run_def launchandview_def iterate_def finalize_def requeue_def)
  have d: "distinct [1::nat, 0]" by simp
  have s: "set [1::nat, 0] = {..<length ?tasks}" by auto
  have i: "1 < length ?tasks" by simp
  have t: "?tasks ! 1 = launchandview ''g'' ''G''" by simp
  have o: "?os ''g'' = Some \<lparr>lines = [], exitstatus = Some 3, close_raises = False\<rparr>"
    by simp
  from exit_code_decides_status [OF r d s i t o, of 3] r show ?thesis by simp
qed

text \<open>
  Claim C10. \<^verbatim>\<open>child.exitstatus\<close> is \<^verbatim>\<open>None\<close> when the process ended without an exit
  code, and \<^verbatim>\<open>None == 0\<close> is false: such a run takes the \<^verbatim>\<open>else\<close> branch of line 247
  and its pane ends in \<open>Error\<close>. The pane ends in \<open>Complete\<close> exactly when the exit status
  is the integer 0.
\<close>

theorem absent_exit_status_is_failed:
  assumes "run os ord tasks = Inr tr" and "distinct ord" and "set ord = {..<length tasks}"
    and "i < length tasks" and "tasks ! i = launchandview cmd endst"
    and "os cmd = Some ch" and "\<not> close_raises ch"
  shows "(exitstatus ch = None \<longrightarrow> pane_state (pane i tr) = Some Error) \<and>
         (pane_state (pane i tr) = Some Complete \<longleftrightarrow> exitstatus ch = Some 0)"
proof -
  have "status_history (pane i tr) = [Running, if exitstatus ch = Some 0 then Complete else Error]"
    using pane_run_solo [OF assms(1-5)] status_history_solo [of os cmd ch endst, OF assms(6,7)]
    by simp
  from pane_state_history [OF this] show ?thesis by simp
qed

theorem absent_exit_status_is_failed_witness:
  "run (map_of [(''k'', \<lparr>lines = [''x''], exitstatus = None, close_raises = False\<rparr>)])
       [0] [launchandview ''k'' ''K''] =
   Inr [(0, Status ''k'' True), (0, Container 300), (0, Code []), (0, Empty), (0, Code ''x''),
        (0, Update (''K: Ended with errors'' @ [CHR 0x27]) Error False)]
   \<and> pane_state (pane 0
       [(0, Status ''k'' True), (0, Container 300), (0, Code []), (0, Empty), (0, Code ''x''),
        (0, Update (''K: Ended with errors'' @ [CHR 0x27]) Error False)]) = Some Error"
proof -
  let ?ch = "\<lparr>lines = [''x''], exitstatus = None, close_raises = False\<rparr>"
  let ?os = "map_of [(''k'', ?ch)]"
  let ?tasks = "[launchandview ''k'' ''K'']"
  let ?tr = "[(0::nat, Status ''k'' True), (0, Container 300), (0, Code []), (0, Empty), (0, Code ''x''),
        (0, Update (''K: Ended with errors'' @ [CHR 0x27]) Error False)]"
  have r: "run ?os [0] ?tasks = Inr ?tr"
    by (simp add: run_def launchandview_def iterate_def finalize_def requeue_def)
  have d: "distinct [0::nat]" by simp
  have s: "set [0::nat] = {..<length ?tasks}" by auto
  have i: "0 < length ?tasks" by simp
  have t: "?tasks ! 0 = launchandview ''k'' ''K''" by simp
  have o: "?os ''k'' = Some ?ch" by simp
  have c: "\<not> close_raises ?ch" by simp
  from absent_exit_status_is_failed [OF r d s i t o c] r show ?thesis by simp
qed




section \<open>The run as a whole\<close>




text \<open>
  Claim C6. Nothing is assumed about the other tasks: their commands may fail to spawn,
  their children may fail to close, they may exit with any code. The run still returns,
  and the pane of a task whose command is spawned and closed holds exactly the calls that
  task makes when it runs alone, ending in \<open>Complete\<close> or \<open>Error\<close> by its own exit status.
\<close>

theorem sibling_unaffected_by_failures:
  assumes "tasks \<noteq> []" and "distinct ord" and "set ord = {..<length tasks}"
    and "i < length tasks" and "tasks ! i = launchandview cmd endst"
    and "os cmd = Some ch" and "\<not> close_raises ch"
  shows "\<exists>tr. run os ord tasks = Inr tr \<and> pane i tr = solo os (launchandview cmd endst) \<and>
           pane_state (pane i tr) = Some (if exitstatus ch = Some 0 then Complete else Error)"
proof -
  from assms(1) obtain tr where r: "run os ord tasks = Inr tr" by (simp add: run_def)
  have p: "pane i tr = solo os (launchandview cmd endst)"
    by (rule pane_run_solo [OF r assms(2-5)])
  have "pane_state (solo os (launchandview cmd endst)) =
      Some (if exitstatus ch = Some 0 then Complete else Error)"
    by (rule pane_state_history [OF status_history_solo [of os cmd ch endst, OF assms(6,7)]])
  with r p show ?thesis by simp
qed

theorem sibling_unaffected_by_failures_witness:
  "\<exists>tr. run (map_of [(''f'', \<lparr>lines = [''x''], exitstatus = Some 0, close_raises = False\<rparr>),
                     (''w'', \<lparr>lines = [''y''], exitstatus = Some 0, close_raises = True\<rparr>),
                     (''e'', \<lparr>lines = [], exitstatus = Some 1, close_raises = False\<rparr>)])
            [2, 3, 1, 0]
            [launchandview ''f'' ''F'', launchandview ''missing'' ''M'',
             launchandview ''w'' ''W'', launchandview ''e'' ''E''] = Inr tr \<and>
        pane 0 tr = solo (map_of [(''f'', \<lparr>lines = [''x''], exitstatus = Some 0, close_raises = False\<rparr>),
                     (''w'', \<lparr>lines = [''y''], exitstatus = Some 0, close_raises = True\<rparr>),
                     (''e'', \<lparr>lines = [], exitstatus = Some 1, close_raises = False\<rparr>)])
                    (launchandview ''f'' ''F'') \<and>
        pane_state (pane 0 tr) = Some Complete"
proof -
  let ?ch = "\<lparr>lines = [''x''], exitstatus = Some (0::int), close_raises = False\<rparr>"
  let ?os = "map_of [(''f'', ?ch),
                     (''w'', \<lparr>lines = [''y''], exitstatus = Some 0, close_raises = True\<rparr>),
                     (''e'', \<lparr>lines = [], exitstatus = Some 1, close_raises = False\<rparr>)]"
  let ?tasks = "[launchandview ''f'' ''F'', launchandview ''missing'' ''M'',
                 launchandview ''w'' ''W'', launchandview ''e'' ''E'']"
  have n: "?tasks \<noteq> []" by simp
  have d: "distinct [2::nat, 3, 1, 0]" by simp
  have s: "set [2::nat, 3, 1, 0] = {..<length ?tasks}" by auto
  have i: "0 < length ?tasks" by simp
  have t: "?tasks ! 0 = launchandview ''f'' ''F''" by simp
  have o: "?os ''f'' = Some ?ch" by simp
  have c: "\<not> close_raises ?ch" by simp
  from sibling_unaffected_by_failures [where os = "?os" and cmd = "''f''" and ch = "?ch", OF n d s i t o c]
  show ?thesis by simp
qed

text \<open>
  Claim C9. When the form is submitted with no box checked, \<^verbatim>\<open>tasks\<close> is empty and
  \<^verbatim>\<open>asyncio.wait\<close> raises \<^verbatim>\<open>ValueError\<close>: the run fails instead of doing nothing.
\<close>

theorem empty_selection_raises:
  assumes "prg f" and "\<not> Joe f" and "\<not> William f" and "\<not> Jack f" and "\<not> Averell f"
  shows "example2 os ord f = Inl ValueError"
  using assms by (simp add: example2_def tasks_of_def run_def)

theorem empty_selection_raises_witness:
  "example2 (map_of []) [] \<lparr>Joe = False, William = False, Jack = False, Averell = False, prg = True\<rparr>
     = Inl ValueError"
proof -
  let ?f = "\<lparr>Joe = False, William = False, Jack = False, Averell = False, prg = True\<rparr>"
  have "prg ?f" and "\<not> Joe ?f" and "\<not> William ?f" and "\<not> Jack ?f" and "\<not> Averell ?f"
    by simp_all
  then show ?thesis by (rule empty_selection_raises)
qed

section \<open>Yielding and blocking\<close>

text \<open>
  A task is suspended after every line it renders: with a line left, the pass of the loop
  ends at the \<^verbatim>\<open>await\<close> of line 244. The read of line 240 is inside the resumption,
  and a resumption is never interrupted: while a task waits there for its child, no
  other task runs. At end of file the same resumption goes on to lines 245 to 248, so a
  command that prints nothing is taken from the read to its badge in one resumption.
\<close>

lemma iterate_line:
  "lines ch = line # rest \<Longrightarrow>
   iterate ch endst content =
     ([Empty, Code (content @ line)],
      Suspended (At244 (ch\<lparr>lines := rest\<rparr>) endst (content @ line)))"
  by (simp add: iterate_def)

lemma iterate_silent:
  "lines ch = [] \<Longrightarrow> iterate ch endst content = finalize ch endst"
  by (simp add: iterate_def)

text \<open>
  Claim C2. The claim is that a slow command does not hold up a fast one: of a command
  that sleeps 0.1 s and exits 0 and one that sleeps 2 s and exits 1, the first pane is
  to be \<open>Complete\<close> before the second is terminal. Neither command prints a line. When
  the slow one is started first, by the iteration order of the set in
  \<^verbatim>\<open>asyncio.wait\<close> or because it comes first in the list, its task waits in the read
  until the slow process ends and writes its badge \<open>Error\<close>; only then is the fast task
  resumed and writes \<open>Complete\<close>. The source yields at each line but blocks the loop in
  between, for the whole duration of a silent command.
\<close>

theorem silent_slow_command_delays_fast:
  "run (map_of [(''fast'', \<lparr>lines = [], exitstatus = Some 0, close_raises = False\<rparr>),
                (''slow'', \<lparr>lines = [], exitstatus = Some 1, close_raises = False\<rparr>)])
       [1, 0] [launchandview ''fast'' ''fast'', launchandview ''slow'' ''slow''] =
   Inr [(1, Status ''slow'' True), (1, Container 300),
        (0, Status ''fast'' True), (0, Container 300),
        (1, Code []), (1, Update (''slow: Ended with errors'' @ [CHR 0x27]) Error False),
        (0, Code []), (0, Update (''fast: Complete'' @ [CHR 0x27]) Complete False)] \<and>
   run (map_of [(''fast'', \<lparr>lines = [], exitstatus = Some 0, close_raises = False\<rparr>),
                (''slow'', \<lparr>lines = [], exitstatus = Some 1, close_raises = False\<rparr>)])
       [0, 1] [launchandview ''slow'' ''slow'', launchandview ''fast'' ''fast''] =
   Inr [(0, Status ''slow'' True), (0, Container 300),
        (1, Status ''fast'' True), (1, Container 300),
        (0, Code []), (0, Update (''slow: Ended with errors'' @ [CHR 0x27]) Error False),
        (1, Code []), (1, Update (''fast: Complete'' @ [CHR 0x27]) Complete False)]"
  by (simp add: run_def launchandview_def iterate_def finalize_def requeue_def)

section \<open>The log buffer\<close>

text \<open>
  Claim C7. The texts that the code element of a pane shows, one after the other, are the
  concatenations of the prefixes of the child's lines: the empty text, the first line,
  the first two lines, and so on up to all the lines. The lines are in the order in which
  the child produced them and none is missing, whatever the other tasks do in between.
  The source has no retention limit.
\<close>

theorem buffer_keeps_lines_in_order:
  assumes "run os ord tasks = Inr tr" and "distinct ord" and "set ord = {..<length tasks}"
    and "i < length tasks" and "tasks ! i = launchandview cmd endst" and "os cmd = Some ch"
  shows "renders (pane i tr) = map concat (prefixes (lines ch))"
  using pane_run_solo [OF assms(1-5)] renders_solo [of os cmd ch endst, OF assms(6)]
  by simp

theorem buffer_keeps_lines_in_order_witness:
  "run (map_of [(''f'', \<lparr>lines = [''x''], exitstatus = Some 0, close_raises = False\<rparr>),
                (''g'', \<lparr>lines = [''a'', ''b''], exitstatus = Some 1, close_raises = False\<rparr>)])
       [0, 1] [launchandview ''f'' ''F'', launchandview ''g'' ''G''] =
   Inr [(0, Status ''f'' True), (0, Container 300), (1, Status ''g'' True), (1, Container 300),
        (0, Code []), (0, Empty), (0, Code ''x''),
        (1, Code []), (1, Empty), (1, Code ''a''),
        (0, Update (''F: Complete'' @ [CHR 0x27]) Complete False),
        (1, Empty), (1, Code ''ab''),
        (1, Update (''G: Ended with errors'' @ [CHR 0x27]) Error False)]
   \<and> renders (pane 1
       [(0, Status ''f'' True), (0, Container 300), (1, Status ''g'' True), (1, Container 300),
        (0, Code []), (0, Empty), (0, Code ''x''),
        (1, Code []), (1, Empty), (1, Code ''a''),
        (0, Update (''F: Complete'' @ [CHR 0x27]) Complete False),
        (1, Empty), (1, Code ''ab''),
        (1, Update (''G: Ended with errors'' @ [CHR 0x27]) Error False)]) = ['''', ''a'', ''ab'']"
proof -
  let ?ch = "\<lparr>lines = [''a'', ''b''], exitstatus = Some (1::int), close_raises = False\<rparr>"
  let ?os = "map_of [(''f'', \<lparr>lines = [''x''], exitstatus = Some 0, close_raises = False\<rparr>),
                     (''g'', ?ch)]"
  let ?tasks = "[launchandview ''f'' ''F'', launchandview ''g'' ''G'']"
  let ?tr = "[(0::nat, Status ''f'' True), (0, Container 300), (1, Status ''g'' True), (1, Container 300),
        (0, Code []), (0, Empty), (0, Code ''x''),
        (1, Code []), (1, Empty), (1, Code ''a''),
        (0, Update (''F: Complete'' @ [CHR 0x27]) Complete False),
        (1, Empty), (1, Code ''ab''),
        (1, Update (''G: Ended with errors'' @ [CHR 0x27]) Error False)]"
  have r: "run ?os [0, 1] ?tasks = Inr ?tr"
    by (simp add: run_def launchandview_def iterate_def finalize_def requeue_def)
  have d: "distinct [0::nat, 1]" by simp
  have s: "set [0::nat, 1] = {..<length ?tasks}" by auto
  have i: "1 < length ?tasks" by simp
  have t: "?tasks ! 1 = launchandview ''g'' ''G''" by simp
  have o: "?os ''g'' = Some ?ch" by simp
  from buffer_keeps_lines_in_order [where os = "?os" and cmd = "''g''" and ch = "?ch", OF r d s i t o] r
  show ?thesis by simp
qed

text \<open>
  Claim C3, amended. The source has no retention limit and evicts nothing: after the
  loop, the buffer \<^verbatim>\<open>content\<close> is the concatenation of all the lines the child
  produced, and its length is the sum of their lengths.
\<close>

theorem buffer_keeps_every_line:
  assumes "run os ord tasks = Inr tr" and "distinct ord" and "set ord = {..<length tasks}"
    and "i < length tasks" and "tasks ! i = launchandview cmd endst" and "os cmd = Some ch"
  shows "last (renders (pane i tr)) = concat (lines ch) \<and>
         length (last (renders (pane i tr))) = sum_list (map length (lines ch))"
proof -
  have "renders (pane i tr) = map concat (prefixes (lines ch))"
    using pane_run_solo [OF assms(1-5)] renders_solo [of os cmd ch endst, OF assms(6)]
    by simp
  then have "last (renders (pane i tr)) = concat (lines ch)"
    by (simp add: last_map)
  then show ?thesis by (simp add: length_concat)
qed

theorem buffer_keeps_every_line_witness:
  "run (map_of [(''c'', \<lparr>lines = [''a'', ''b''], exitstatus = Some 0, close_raises = False\<rparr>)])
       [0] [launchandview ''c'' ''C''] =
   Inr [(0, Status ''c'' True), (0, Container 300), (0, Code []), (0, Empty), (0, Code ''a''),
        (0, Empty), (0, Code ''ab''), (0, Update (''C: Complete'' @ [CHR 0x27]) Complete False)]
   \<and> last (renders (pane 0
       [(0, Status ''c'' True), (0, Container 300), (0, Code []), (0, Empty), (0, Code ''a''),
        (0, Empty), (0, Code ''ab''), (0, Update (''C: Complete'' @ [CHR 0x27]) Complete False)]))
     = ''ab''"
proof -
  let ?ch = "\<lparr>lines = [''a'', ''b''], exitstatus = Some (0::int), close_raises = False\<rparr>"
  let ?os = "map_of [(''c'', ?ch)]"
  let ?tasks = "[launchandview ''c'' ''C'']"
  let ?tr = "[(0::nat, Status ''c'' True), (0, Container 300), (0, Code []), (0, Empty), (0, Code ''a''),
        (0, Empty), (0, Code ''ab''), (0, Update (''C: Complete'' @ [CHR 0x27]) Complete False)]"
  have r: "run ?os [0] ?tasks = Inr ?tr"
    by (simp add: run_def launchandview_def iterate_def finalize_def requeue_def)
  have d: "distinct [0::nat]" by simp
  have s: "set [0::nat] = {..<length ?tasks}" by auto
  have i: "0 < length ?tasks" by simp
  have t: "?tasks ! 0 = launchandview ''c'' ''C''" by simp
  have o: "?os ''c'' = Some ?ch" by simp
  from buffer_keeps_every_line [where os = "?os" and cmd = "''c''" and ch = "?ch", OF r d s i t o] r
  show ?thesis by simp
qed

text \<open>
  With the limit \<open>K = 1\<close> and two lines, the specification's buffer holds the last line;
  the source's holds both.
\<close>

theorem retention_limit_counterexample:
  "last (renders (pane 0 (projr (run
      (map_of [(''c'', \<lparr>lines = [''a'', ''b''], exitstatus = Some 0, close_raises = False\<rparr>)])
      [0] [launchandview ''c'' ''C''])))) = ''ab'' \<and>
   concat (spec_retained 1 [''a'', ''b'']) = ''b''"
  by (simp add: run_def launchandview_def iterate_def finalize_def requeue_def pane_def
      renders_def List.map_filter_def spec_retained_def)

text \<open>
  Claim C4, amended. Every pass of the loop empties the code element and renders the
  whole content accumulated so far: the calls on a pane are \<^verbatim>\<open>st.status\<close>,
  \<^verbatim>\<open>st.container\<close>, \<^verbatim>\<open>st.code('')\<close>, then for each nonempty prefix of the lines, in
  order, \<^verbatim>\<open>x.empty()\<close> and \<^verbatim>\<open>st.code\<close> of the concatenation of that prefix, then the
  calls of lines 245 to 248.
\<close>

theorem append_renders_whole_content:
  assumes "run os ord tasks = Inr tr" and "distinct ord" and "set ord = {..<length tasks}"
    and "i < length tasks" and "tasks ! i = launchandview cmd endst" and "os cmd = Some ch"
  shows "pane i tr =
           [Status cmd True, Container 300, Code []] @
           concat (map (\<lambda>p. [Empty, Code (concat p)]) (tl (prefixes (lines ch)))) @
           fst (finalize ch endst)"
  using pane_run_solo [OF assms(1-5)] solo_launchandview [of os cmd ch endst, OF assms(6)]
  by (simp add: pump_prefixes)

theorem append_renders_whole_content_witness:
  "run (map_of [(''c'', \<lparr>lines = [''a'', ''b'', ''c''], exitstatus = Some 0, close_raises = False\<rparr>)])
       [0] [launchandview ''c'' ''C''] =
   Inr [(0, Status ''c'' True), (0, Container 300), (0, Code []), (0, Empty), (0, Code ''a''),
        (0, Empty), (0, Code ''ab''), (0, Empty), (0, Code ''abc''),
        (0, Update (''C: Complete'' @ [CHR 0x27]) Complete False)]
   \<and> pane 0
       [(0, Status ''c'' True), (0, Container 300), (0, Code []), (0, Empty), (0, Code ''a''),
        (0, Empty), (0, Code ''ab''), (0, Empty), (0, Code ''abc''),
        (0, Update (''C: Complete'' @ [CHR 0x27]) Complete False)] =
     [Status ''c'' True, Container 300, Code [], Empty, Code ''a'', Empty, Code ''ab'',
      Empty, Code ''abc'', Update (''C: Complete'' @ [CHR 0x27]) Complete False]"
proof -
  let ?ch = "\<lparr>lines = [''a'', ''b'', ''c''], exitstatus = Some (0::int), close_raises = False\<rparr>"
  let ?os = "map_of [(''c'', ?ch)]"
  let ?tasks = "[launchandview ''c'' ''C'']"
  let ?tr = "[(0::nat, Status ''c'' True), (0, Container 300), (0, Code []), (0, Empty), (0, Code ''a''),
        (0, Empty), (0, Code ''ab''), (0, Empty), (0, Code ''abc''),
        (0, Update (''C: Complete'' @ [CHR 0x27]) Complete False)]"
  have r: "run ?os [0] ?tasks = Inr ?tr"
    by (simp add: run_def launchandview_def iterate_def finalize_def requeue_def)
  have d: "distinct [0::nat]" by simp
  have s: "set [0::nat] = {..<length ?tasks}" by auto
  have i: "0 < length ?tasks" by simp
  have t: "?tasks ! 0 = launchandview ''c'' ''C''" by simp
  have o: "?os ''c'' = Some ?ch" by simp
  from append_renders_whole_content [where os = "?os" and cmd = "''c''" and ch = "?ch", OF r d s i t o] r
  show ?thesis by (simp add: finalize_def)
qed

text \<open>
  With three lines, an incremental append hands the display each line on its own; the
  source hands it the whole content at every line.
\<close>

theorem incremental_append_counterexample:
  "renders (pane 0 (projr (run
      (map_of [(''c'', \<lparr>lines = [''a'', ''b'', ''c''], exitstatus = Some 0, close_raises = False\<rparr>)])
      [0] [launchandview ''c'' ''C'']))) = ['''', ''a'', ''ab'', ''abc''] \<and>
   spec_incremental [''a'', ''b'', ''c''] = ['''', ''a'', ''b'', ''c'']"
  by (simp add: run_def launchandview_def iterate_def finalize_def requeue_def pane_def
      renders_def List.map_filter_def spec_incremental_def)

end
